theory Spec2Isabelle
  imports Main "HOL-Library.Word"
begin

section \<open>Python values, exceptions and the files read\<close>

text \<open>
  The driver \<^verbatim>\<open>run.py\<close> enumerates the invocations of \<^verbatim>\<open>likeligrid\<close>. Its functions read
  gzip-compressed files, so every one of them can raise. A raise is the left injection of
  a sum; the exceptions are Python's own, named as the interpreter names them.
\<close>

datatype pyerr =
    UnboundLocalError
  | IndexError
  | KeyError
  | TypeError
  | ValueError
  | AttributeError
  | OSError

text \<open>
  What \<^verbatim>\<open>json.load\<close> returns: \<^verbatim>\<open>None\<close>, a bool, an int, a float (its 64 bits), a str, a
  list, or a dict. A dict is an association list read with \<^const>\<open>map_of\<close>: the first
  binding of a key is the one the dict holds.
\<close>

datatype pyval =
    PNone
  | PBool bool
  | PInt int
  | PFloat "64 word"
  | PStr string
  | PList "pyval list"
  | PDict "(string \<times> pyval) list"

text \<open>
  The files. \<^verbatim>\<open>gzip.open(infile, 'rt')\<close> may raise (a missing file); otherwise iterating
  it gives the lines of the file one by one, each with its line terminator, until the end
  of the file (\<^const>\<open>None\<close>) or until a read raises (bad compression, undecodable text).
  \<^verbatim>\<open>json.load(gzip.open(infile, 'r'))\<close> reads the whole file: it gives the decoded document
  or raises.
\<close>

type_synonym line_stream = "string list \<times> pyerr option"

record fsys =
  gzip_lines :: "string \<Rightarrow> pyerr + line_stream"
  gzip_json :: "string \<Rightarrow> pyerr + pyval"

section \<open>String operations of Python used by the driver\<close>

text \<open>
  A \<^typ>\<open>char\<close> stands for one code point below 256. \<^verbatim>\<open>str.isspace\<close> holds there for
  TAB, LF, VT, FF, CR, FS, GS, RS, US, SPACE, NEL and NBSP.
\<close>

definition isspace :: "char \<Rightarrow> bool" where
  "isspace c = (c \<in> set [CHR 0x09, CHR 0x0A, CHR 0x0B, CHR 0x0C, CHR 0x0D,
                           CHR 0x1C, CHR 0x1D, CHR 0x1E, CHR 0x1F, CHR 0x20,
                           CHR 0x85, CHR 0xA0])"

definition tab :: char where
  "tab = CHR 0x09"

definition startswith :: "string \<Rightarrow> string \<Rightarrow> bool" where
  "startswith s p = (take (length p) s = p)"

definition rstrip :: "string \<Rightarrow> string" where
  "rstrip s = rev (dropWhile isspace (rev s))"

text \<open>\<^verbatim>\<open>s.split(sep)\<close> with a one-character separator: never empty, \<^verbatim>\<open>''.split(sep) == ['']\<close>.\<close>

fun str_split :: "string \<Rightarrow> char \<Rightarrow> string list" where
  "str_split [] sep = [[]]"
| "str_split (c # cs) sep =
     (if c = sep then [] # str_split cs sep
      else (case str_split cs sep of
              [] \<Rightarrow> [[c]]
            | fld # flds \<Rightarrow> (c # fld) # flds))"

text \<open>\<^verbatim>\<open>s.index(sub)\<close>: the least position where \<^verbatim>\<open>sub\<close> starts, \<^verbatim>\<open>ValueError\<close> if none.\<close>

fun str_index :: "string \<Rightarrow> string \<Rightarrow> pyerr + nat" where
  "str_index [] sub = (if sub = [] then Inr 0 else Inl ValueError)"
| "str_index (c # cs) sub =
     (if startswith (c # cs) sub then Inr 0
      else (case str_index cs sub of Inl e \<Rightarrow> Inl e | Inr i \<Rightarrow> Inr (Suc i)))"

text \<open>Decimal formatting, as \<^verbatim>\<open>'{}'.format\<close> does for an int.\<close>

definition digit_char :: "nat \<Rightarrow> char" where
  "digit_char d = ''0123456789'' ! d"

fun str_nat :: "nat \<Rightarrow> string" where
  "str_nat n = (if n < 10 then [digit_char n] else str_nat (n div 10) @ [digit_char (n mod 10)])"

declare str_nat.simps [simp del]

definition str_int :: "int \<Rightarrow> string" where
  "str_int i = (if i < 0 then CHR ''-'' # str_nat (nat (- i)) else str_nat (nat i))"

section \<open>Operations on decoded JSON\<close>

text \<open>\<^verbatim>\<open>x == s\<close> for a str \<^verbatim>\<open>s\<close>: only an equal str is equal to it.\<close>

fun py_eq_str :: "pyval \<Rightarrow> string \<Rightarrow> bool" where
  "py_eq_str (PStr t) s = (t = s)"
| "py_eq_str _ s = False"

text \<open>\<^verbatim>\<open>d[key]\<close> with a str key: a \<^verbatim>\<open>KeyError\<close> of a dict without it, a \<^verbatim>\<open>TypeError\<close> of
  anything that is not a dict.\<close>

fun getitem :: "pyval \<Rightarrow> string \<Rightarrow> pyerr + pyval" where
  "getitem (PDict kvs) key = (case map_of kvs key of None \<Rightarrow> Inl KeyError | Some v \<Rightarrow> Inr v)"
| "getitem _ key = Inl TypeError"

text \<open>\<^verbatim>\<open>len(x)\<close>: defined for a list, a str and a dict (its number of keys).\<close>

fun py_len :: "pyval \<Rightarrow> pyerr + nat" where
  "py_len (PList xs) = Inr (length xs)"
| "py_len (PStr s) = Inr (length s)"
| "py_len (PDict kvs) = Inr (length (remdups (map fst kvs)))"
| "py_len _ = Inl TypeError"

text \<open>\<^verbatim>\<open>xs.index(s)\<close> of a list: the first position holding a value equal to \<^verbatim>\<open>s\<close>.\<close>

fun list_index :: "pyval list \<Rightarrow> string \<Rightarrow> pyerr + nat" where
  "list_index [] s = Inl ValueError"
| "list_index (x # xs) s =
     (if py_eq_str x s then Inr 0
      else (case list_index xs s of Inl e \<Rightarrow> Inl e | Inr i \<Rightarrow> Inr (Suc i)))"

text \<open>\<^verbatim>\<open>p.index(s)\<close>: a method of list and of str; other values have no such attribute.\<close>

fun py_index :: "pyval \<Rightarrow> string \<Rightarrow> pyerr + nat" where
  "py_index (PList xs) s = list_index xs s"
| "py_index (PStr t) s = str_index t s"
| "py_index _ s = Inl AttributeError"

section \<open>The pathway counters\<close>

text \<open>
  The loop of \<^verbatim>\<open>count_pathways_tsv\<close>: skip the lines that start with \<^verbatim>\<open>#\<close>, bind
  \<^verbatim>\<open>header\<close> at the first other line and leave the loop, reading no further. The result
  \<^term>\<open>Inr None\<close> is the loop running to the end of the file with \<^verbatim>\<open>header\<close> never bound.
\<close>

fun scan_header :: "string list \<Rightarrow> pyerr option \<Rightarrow> pyerr + string list option" where
  "scan_header [] None = Inr None"
| "scan_header [] (Some e) = Inl e"
| "scan_header (line # fin) eof =
     (if startswith line ''#'' then scan_header fin eof
      else Inr (Some (str_split (rstrip line) tab)))"

text \<open>
  After the loop: \<^verbatim>\<open>header.pop(0)\<close>, then \<^verbatim>\<open>if ':' in header[-1]: header.pop(-1)\<close>, then
  \<^verbatim>\<open>len(header)\<close>. Reading the unbound \<^verbatim>\<open>header\<close> raises \<^verbatim>\<open>UnboundLocalError\<close>; \<^verbatim>\<open>pop\<close> of an
  empty list and \<^verbatim>\<open>header[-1]\<close> of an empty list raise \<^verbatim>\<open>IndexError\<close>.
\<close>

definition count_header :: "string list option \<Rightarrow> pyerr + nat" where
  "count_header bound =
     (case bound of
        None \<Rightarrow> Inl UnboundLocalError
      | Some header0 \<Rightarrow>
          (case header0 of
             [] \<Rightarrow> Inl IndexError
           | loglik # header \<Rightarrow>
               (if header = [] then Inl IndexError
                else if CHR '':'' \<in> set (last header) then Inr (length (butlast header))
                else Inr (length header))))"

definition count_pathways_tsv :: "fsys \<Rightarrow> string \<Rightarrow> pyerr + nat" where
  "count_pathways_tsv fs infile =
     (case gzip_lines fs infile of
        Inl e \<Rightarrow> Inl e
      | Inr (fin, eof) \<Rightarrow>
          (case scan_header fin eof of
             Inl e \<Rightarrow> Inl e
           | Inr bound \<Rightarrow> count_header bound))"

definition count_pathways_json :: "fsys \<Rightarrow> string \<Rightarrow> pyerr + nat" where
  "count_pathways_json fs infile =
     (case gzip_json fs infile of
        Inl e \<Rightarrow> Inl e
      | Inr d \<Rightarrow>
          (case getitem d ''pathway'' of
             Inl e \<Rightarrow> Inl e
           | Inr p \<Rightarrow> py_len p))"

section \<open>The named pair\<close>

definition tp53_pleiotropic_pair :: "fsys \<Rightarrow> string \<Rightarrow> pyerr + nat \<times> nat" where
  "tp53_pleiotropic_pair fs infile =
     (case gzip_json fs infile of
        Inl e \<Rightarrow> Inl e
      | Inr d \<Rightarrow>
          (case getitem d ''pathway'' of
             Inl e \<Rightarrow> Inl e
           | Inr p \<Rightarrow>
               (case py_index p ''Cycle'' of
                  Inl e \<Rightarrow> Inl e
                | Inr i \<Rightarrow>
                    (case py_index p ''Damage'' of
                       Inl e \<Rightarrow> Inl e
                     | Inr j \<Rightarrow> Inr (i, j)))))"

section \<open>The argument generator\<close>

text \<open>\<^verbatim>\<open>itertools.combinations(xs, 2)\<close>: each element paired with every later one.\<close>

fun combinations2 :: "'a list \<Rightarrow> ('a \<times> 'a) list" where
  "combinations2 [] = []"
| "combinations2 (x # xs) = map (Pair x) xs @ combinations2 xs"

definition program :: string where
  "program = ''likeligrid''"

text \<open>\<^verbatim>\<open>'-e {} {}'.format(*x)\<close> for a pair of indices.\<close>

definition fmt_e :: "nat \<times> nat \<Rightarrow> string" where
  "fmt_e x = ''-e '' @ str_nat (fst x) @ '' '' @ str_nat (snd x)"

text \<open>
  Modelled from the spec: \<^verbatim>\<open>wtl.options.sequential\<close>, a function of the library \<^verbatim>\<open>wtl\<close>
  that the driver imports. The spec has the outer loop run once for each value of the
  sweep range, in the order of the range, with a single axis named \<^verbatim>\<open>s\<close>: each element
  binds the axis name to one value. \<^verbatim>\<open>wtl.options.make_args\<close>, which turns such a binding
  into flags, is a parameter of the generator.
\<close>

definition sequential :: "(string \<times> int list) list \<Rightarrow> (string \<times> int) list list" where
  "sequential axes = concat (map (\<lambda>(key, vals). map (\<lambda>v. [(key, v)]) vals) axes)"

type_synonym job = "string list"

text \<open>
  A generator is the list of what it yields, with the exception that ends it, if one
  does. The body of the loop over \<^verbatim>\<open>infiles\<close> reads the file before its first
  \<^verbatim>\<open>yield\<close>, so for one file it either raises or yields all its jobs.
\<close>

definition npath_of :: "fsys \<Rightarrow> string list \<Rightarrow> string \<Rightarrow> pyerr + nat" where
  "npath_of fs const f =
     (if ''-g'' \<in> set const then count_pathways_tsv fs f else count_pathways_json fs f)"

definition file_jobs ::
  "fsys \<Rightarrow> string list \<Rightarrow> string list \<Rightarrow> bool \<Rightarrow> bool \<Rightarrow> string \<Rightarrow> pyerr + job list" where
  "file_jobs fs const args epistasis tp53 f =
     (if epistasis then
        (case npath_of fs const f of
           Inl e \<Rightarrow> Inl e
         | Inr npath \<Rightarrow>
             Inr (map (\<lambda>x. const @ [fmt_e x] @ args @ [f]) (combinations2 [0..<npath])))
      else if tp53 then
        (case tp53_pleiotropic_pair fs f of
           Inl e \<Rightarrow> Inl e
         | Inr pair \<Rightarrow> Inr [const @ [fmt_e pair] @ args @ [f]])
      else Inr [const @ args @ [f]])"

fun files_loop :: "(string \<Rightarrow> pyerr + job list) \<Rightarrow> string list \<Rightarrow> job list \<times> pyerr option" where
  "files_loop body [] = ([], None)"
| "files_loop body (f # fs) =
     (case body f of
        Inl e \<Rightarrow> ([], Some e)
      | Inr js \<Rightarrow> (case files_loop body fs of (later, err) \<Rightarrow> (js @ later, err)))"

fun sweep_loop :: "('v \<Rightarrow> job list \<times> pyerr option) \<Rightarrow> 'v list \<Rightarrow> job list \<times> pyerr option" where
  "sweep_loop body [] = ([], None)"
| "sweep_loop body (v # vs) =
     (case body v of
        (js, Some e) \<Rightarrow> (js, Some e)
      | (js, None) \<Rightarrow> (case sweep_loop body vs of (later, err) \<Rightarrow> (js @ later, err)))"

definition const_of :: "int \<Rightarrow> string list \<Rightarrow> string list" where
  "const_of concurrency rest = [program, ''-j'' @ str_int concurrency] @ rest"

definition iter_args ::
  "fsys \<Rightarrow> ((string \<times> int) list \<Rightarrow> string list) \<Rightarrow> string list \<Rightarrow> int list \<Rightarrow> int \<Rightarrow>
   string list \<Rightarrow> bool \<Rightarrow> bool \<Rightarrow> job list \<times> pyerr option" where
  "iter_args fs make_args infiles range_s concurrency rest epistasis tp53 =
     (let const = const_of concurrency rest;
          axes = [(''s'', range_s)]
      in sweep_loop
           (\<lambda>v. let args = make_args v
                in files_loop (\<lambda>f. file_jobs fs const args epistasis tp53 f) infiles)
           (sequential axes))"

text \<open>\<^verbatim>\<open>range(begin, end)\<close>, as \<^verbatim>\<open>main\<close> builds the sweep range.\<close>

definition py_range :: "int \<Rightarrow> int \<Rightarrow> int list" where
  "py_range b e = [b..e - 1]"

section \<open>Notions used to state the properties\<close>

text \<open>
  Python's built-in exception classes: \<^verbatim>\<open>LookupError\<close> is the base class of
  \<^verbatim>\<open>IndexError\<close> and \<^verbatim>\<open>KeyError\<close>, and of none of the other exceptions raised here.
\<close>

definition is_lookup_error :: "pyerr \<Rightarrow> bool" where
  "is_lookup_error e = (e = IndexError \<or> e = KeyError)"

text \<open>The lexicographic order of index pairs.\<close>

definition lex_lt :: "nat \<times> nat \<Rightarrow> nat \<times> nat \<Rightarrow> bool" where
  "lex_lt p q = (fst p < fst q \<or> (fst p = fst q \<and> snd p < snd q))"

text \<open>Position \<open>i\<close> is the index of the name \<open>s\<close> in \<open>p\<close>: its first occurrence.\<close>

definition first_at :: "pyval list \<Rightarrow> string \<Rightarrow> nat \<Rightarrow> bool" where
  "first_at p s i = (i < length p \<and> p ! i = PStr s \<and> (\<forall>k<i. p ! k \<noteq> PStr s))"

text \<open>
  The number of pairs selected for a file: the pairs of the exhaustive policy in
  epistasis mode, the one named pair in tp53 mode, and one (job) when no mode is set.
  It is undefined when the file cannot be read as the mode requires.
\<close>

definition pairs_per_file :: "fsys \<Rightarrow> string list \<Rightarrow> bool \<Rightarrow> bool \<Rightarrow> string \<Rightarrow> pyerr + nat" where
  "pairs_per_file fs const epistasis tp53 f =
     (if epistasis then
        (case npath_of fs const f of
           Inl e \<Rightarrow> Inl e
         | Inr npath \<Rightarrow> Inr (length (combinations2 [0..<npath])))
      else if tp53 then
        (case tp53_pleiotropic_pair fs f of
           Inl e \<Rightarrow> Inl e
         | Inr pair \<Rightarrow> Inr 1)
      else Inr 1)"

section \<open>Splitting and stripping\<close>

lemma str_split_no_sep: "sep \<notin> set a \<Longrightarrow> str_split a sep = [a]"
  by (induction a) auto

lemma str_split_first: "sep \<notin> set a \<Longrightarrow> str_split (a @ sep # r) sep = a # str_split r sep"
  by (induction a) auto

lemma str_split_fields:
  "sep \<notin> set a \<Longrightarrow> \<forall>n\<in>set ns. sep \<notin> set n \<Longrightarrow>
   str_split (a @ concat (map ((#) sep) ns)) sep = a # ns"
proof (induction ns arbitrary: a)
  case Nil
  then show ?case by (simp add: str_split_no_sep)
next
  case (Cons n ns)
  then show ?case by (simp add: str_split_first)
qed

lemma rstrip_blank_tail: "\<forall>c\<in>set e. isspace c \<Longrightarrow> rstrip (s @ e) = rstrip s"
proof -
  assume "\<forall>c\<in>set e. isspace c"
  then have "dropWhile isspace (rev e @ rev s) = dropWhile isspace (rev s)"
    by (intro dropWhile_append2) simp
  then show ?thesis by (simp add: rstrip_def)
qed

lemma rstrip_keeps_front: "\<exists>c\<in>set l. \<not> isspace c \<Longrightarrow> rstrip (a @ l) = a @ rstrip l"
  by (auto simp: rstrip_def dropWhile_append1)

lemma set_rstrip_subset: "set (rstrip l) \<subseteq> set l"
  by (auto simp: rstrip_def dest: set_dropWhileD)

lemma rstrip_keeps_char: "c \<in> set l \<Longrightarrow> \<not> isspace c \<Longrightarrow> c \<in> set (rstrip l)"
proof -
  assume c: "c \<in> set l" and ns: "\<not> isspace c"
  have "set (rev l) = set (takeWhile isspace (rev l)) \<union> set (dropWhile isspace (rev l))"
    by (metis set_append takeWhile_dropWhile_id)
  moreover have "c \<notin> set (takeWhile isspace (rev l))"
    using ns by (auto dest: set_takeWhileD)
  ultimately show ?thesis using c by (auto simp: rstrip_def)
qed

text \<open>
  A header line is its first field, then each further field behind a tab, then the line
  terminator. When the last field is not blank, stripping the line strips that field only.
\<close>

lemma rstrip_header:
  assumes "\<exists>c\<in>set l. \<not> isspace c" and "\<forall>c\<in>set eol. isspace c"
  shows "rstrip (loglik @ concat (map ((#) sep) (ns @ [l])) @ eol)
         = loglik @ concat (map ((#) sep) (ns @ [rstrip l]))"
proof -
  have "rstrip (loglik @ concat (map ((#) sep) (ns @ [l])) @ eol)
        = rstrip ((loglik @ concat (map ((#) sep) ns) @ [sep]) @ l)"
    using rstrip_blank_tail [OF assms(2), of "loglik @ concat (map ((#) sep) (ns @ [l]))"]
    by simp
  also have "\<dots> = (loglik @ concat (map ((#) sep) ns) @ [sep]) @ rstrip l"
    by (rule rstrip_keeps_front [OF assms(1)])
  finally show ?thesis by simp
qed

lemma header_fields:
  assumes "tab \<notin> set loglik" and "\<forall>n\<in>set ns. tab \<notin> set n" and "tab \<notin> set l"
    and "\<exists>c\<in>set l. \<not> isspace c" and "\<forall>c\<in>set eol. isspace c"
  shows "str_split (rstrip (loglik @ concat (map ((#) tab) (ns @ [l])) @ eol)) tab
         = loglik # ns @ [rstrip l]"
proof -
  have "tab \<notin> set (rstrip l)"
    using assms(3) set_rstrip_subset by blast
  with assms(2) have "\<forall>n\<in>set (ns @ [rstrip l]). tab \<notin> set n"
    by simp
  from str_split_fields [OF assms(1) this] rstrip_header [OF assms(4,5)]
  show ?thesis by simp
qed

section \<open>The TSV counter\<close>

lemma scan_header_skip:
  "\<forall>c\<in>set comments. startswith c ''#'' \<Longrightarrow> \<not> startswith hdr ''#'' \<Longrightarrow>
   scan_header (comments @ hdr # rest) eof = Inr (Some (str_split (rstrip hdr) tab))"
  by (induction comments) auto

lemma scan_header_all_comments:
  "\<forall>c\<in>set fin. startswith c ''#'' \<Longrightarrow> scan_header fin None = Inr None"
  by (induction fin) auto

lemma scan_header_found:
  "\<exists>c\<in>set fin. \<not> startswith c ''#'' \<Longrightarrow> \<exists>h. scan_header fin eof = Inr (Some h)"
  by (induction fin) auto

lemma count_header_bound: "count_header (Some h) \<noteq> Inl UnboundLocalError"
  by (auto simp: count_header_def split: list.splits)

text \<open>
  Claim C4. A TSV file that is read to its end and whose lines all start with \<^verbatim>\<open>#\<close> (an
  empty file is one) makes \<^verbatim>\<open>count_pathways_tsv\<close> fail with the header-not-found error:
  the loop ends with \<^verbatim>\<open>header\<close> unbound, and \<^verbatim>\<open>header.pop(0)\<close> raises Python's
  \<^verbatim>\<open>UnboundLocalError\<close>, which is what the spec calls \<^verbatim>\<open>MalformedInputError\<close> (header not
  found). A file with a line that does not start with \<^verbatim>\<open>#\<close> never raises that error.
\<close>

theorem tsv_header_not_found:
  assumes "gzip_lines fs f = Inr (fin, eof)"
  shows "(eof = None \<and> (\<forall>line\<in>set fin. startswith line ''#'')
            \<longrightarrow> count_pathways_tsv fs f = Inl UnboundLocalError)
       \<and> ((\<exists>line\<in>set fin. \<not> startswith line ''#'')
            \<longrightarrow> count_pathways_tsv fs f \<noteq> Inl UnboundLocalError)"
proof (intro conjI impI)
  assume "eof = None \<and> (\<forall>line\<in>set fin. startswith line ''#'')"
  with assms show "count_pathways_tsv fs f = Inl UnboundLocalError"
    by (simp add: count_pathways_tsv_def scan_header_all_comments count_header_def)
next
  assume "\<exists>line\<in>set fin. \<not> startswith line ''#''"
  then obtain h where "scan_header fin eof = Inr (Some h)"
    using scan_header_found by blast
  with assms show "count_pathways_tsv fs f \<noteq> Inl UnboundLocalError"
    by (simp add: count_pathways_tsv_def count_header_bound)
qed

theorem tsv_header_not_found_witness:
  "count_pathways_tsv
     \<lparr>gzip_lines = (\<lambda>p. Inr ([''# likeligrid'', ''# version 1''], None)),
      gzip_json = (\<lambda>p. Inl OSError)\<rparr> ''r.tsv.gz'' = Inl UnboundLocalError
   \<and> count_pathways_tsv
     \<lparr>gzip_lines = (\<lambda>p. Inr ([''# likeligrid'', ''loglik''], None)),
      gzip_json = (\<lambda>p. Inl OSError)\<rparr> ''r.tsv.gz'' \<noteq> Inl UnboundLocalError"
  using tsv_header_not_found
          [of "\<lparr>gzip_lines = (\<lambda>p. Inr ([''# likeligrid'', ''# version 1''], None)),
                gzip_json = (\<lambda>p. Inl OSError)\<rparr>"
              "''r.tsv.gz''" "[''# likeligrid'', ''# version 1'']" None]
        tsv_header_not_found
          [of "\<lparr>gzip_lines = (\<lambda>p. Inr ([''# likeligrid'', ''loglik''], None)),
                gzip_json = (\<lambda>p. Inl OSError)\<rparr>"
              "''r.tsv.gz''" "[''# likeligrid'', ''loglik'']" None]
  by (simp add: startswith_def)

text \<open>
  Claim C10. When the first line that does not start with \<^verbatim>\<open>#\<close> splits into exactly one
  field, \<^verbatim>\<open>count_pathways_tsv\<close> does not return 0: \<^verbatim>\<open>header.pop(0)\<close> leaves the empty
  list, and \<^verbatim>\<open>header[-1]\<close> raises \<^verbatim>\<open>IndexError\<close>.
\<close>

theorem tsv_single_field_fails:
  assumes "gzip_lines fs f = Inr (comments @ hdr # rest, eof)"
    and "\<forall>c\<in>set comments. startswith c ''#''"
    and "\<not> startswith hdr ''#''"
    and "length (str_split (rstrip hdr) tab) = 1"
  shows "count_pathways_tsv fs f = Inl IndexError"
proof -
  from assms(4) obtain fld where "str_split (rstrip hdr) tab = [fld]"
    by (cases "str_split (rstrip hdr) tab") auto
  with assms(1) scan_header_skip [OF assms(2,3), of rest eof] show ?thesis
    by (simp add: count_pathways_tsv_def count_header_def)
qed

theorem tsv_single_field_fails_witness:
  "count_pathways_tsv
     \<lparr>gzip_lines = (\<lambda>p. Inr ([''# likeligrid'', ''loglik'' @ [CHR 0x0A], ''-1.5'' @ [CHR 0x0A]], None)),
      gzip_json = (\<lambda>p. Inl OSError)\<rparr> ''r.tsv.gz'' = Inl IndexError"
  using tsv_single_field_fails
          [of "\<lparr>gzip_lines = (\<lambda>p. Inr ([''# likeligrid'', ''loglik'' @ [CHR 0x0A], ''-1.5'' @ [CHR 0x0A]], None)),
                gzip_json = (\<lambda>p. Inl OSError)\<rparr>"
              "''r.tsv.gz''" "[''# likeligrid'']" "''loglik'' @ [CHR 0x0A]" "[''-1.5'' @ [CHR 0x0A]]" None]
  by (simp add: startswith_def rstrip_def isspace_def tab_def)

text \<open>
  Claim C5. Let the first line that does not start with \<^verbatim>\<open>#\<close> be a header: the
  log-likelihood column, then \<open>k\<close> pathway columns, each behind a tab, none with a tab or
  a \<^verbatim>\<open>:\<close> in its name, then the line terminator. With no annotation column,
  \<^verbatim>\<open>count_pathways_tsv\<close> returns \<open>k\<close> provided \<open>k \<ge> 1\<close> and the last pathway name is not
  blank. With one more column that contains \<^verbatim>\<open>:\<close> behind them, it returns \<open>k\<close> for
  every \<open>k\<close>.
\<close>

theorem tsv_header_count:
  assumes "gzip_lines fs f = Inr (comments @ hdr # rest, eof)"
    and "\<forall>c\<in>set comments. startswith c ''#''"
    and "\<not> startswith hdr ''#''"
    and "tab \<notin> set loglik"
    and "\<forall>n\<in>set names. tab \<notin> set n \<and> CHR '':'' \<notin> set n"
    and "\<forall>c\<in>set eol. isspace c"
  shows "(names \<noteq> [] \<and> (\<exists>c\<in>set (last names). \<not> isspace c)
            \<and> hdr = loglik @ concat (map ((#) tab) names) @ eol
          \<longrightarrow> count_pathways_tsv fs f = Inr (length names))
       \<and> (tab \<notin> set ann \<and> CHR '':'' \<in> set ann
            \<and> hdr = loglik @ concat (map ((#) tab) (names @ [ann])) @ eol
          \<longrightarrow> count_pathways_tsv fs f = Inr (length names))"
proof (intro conjI impI)
  assume a: "names \<noteq> [] \<and> (\<exists>c\<in>set (last names). \<not> isspace c)
            \<and> hdr = loglik @ concat (map ((#) tab) names) @ eol"
  then obtain ns l where names: "names = ns @ [l]"
    by (metis append_butlast_last_id)
  with a assms(5) have l: "tab \<notin> set l" "CHR '':'' \<notin> set l" "\<exists>c\<in>set l. \<not> isspace c"
    and ns: "\<forall>n\<in>set ns. tab \<notin> set n"
    by auto
  from a names have "str_split (rstrip hdr) tab = loglik # ns @ [rstrip l]"
    using header_fields [OF assms(4) ns l(1) l(3) assms(6)] by simp
  moreover have "CHR '':'' \<notin> set (rstrip l)"
    using l(2) set_rstrip_subset by blast
  ultimately show "count_pathways_tsv fs f = Inr (length names)"
    using assms(1) scan_header_skip [OF assms(2,3), of rest eof] names
    by (simp add: count_pathways_tsv_def count_header_def)
next
  assume a: "tab \<notin> set ann \<and> CHR '':'' \<in> set ann
            \<and> hdr = loglik @ concat (map ((#) tab) (names @ [ann])) @ eol"
  have colon: "\<not> isspace CHR '':''"
    by (simp add: isspace_def)
  with a have ne: "\<exists>c\<in>set ann. \<not> isspace c"
    by blast
  from assms(5) have ns: "\<forall>n\<in>set names. tab \<notin> set n"
    by simp
  from a have "str_split (rstrip hdr) tab = loglik # names @ [rstrip ann]"
    using header_fields [OF assms(4) ns _ ne assms(6)] by simp
  moreover have "CHR '':'' \<in> set (rstrip ann)"
    using a colon rstrip_keeps_char by blast
  ultimately show "count_pathways_tsv fs f = Inr (length names)"
    using assms(1) scan_header_skip [OF assms(2,3), of rest eof]
    by (simp add: count_pathways_tsv_def count_header_def)
qed
theorem tsv_header_count_witness:
  "count_pathways_tsv
     \<lparr>gzip_lines = (\<lambda>p. Inr ([''# likeligrid'',
                                ''loglik'' @ tab # ''Cycle'' @ tab # ''Damage'' @ [CHR 0x0A],
                                ''-1.5'' @ tab # ''1'' @ tab # ''2'' @ [CHR 0x0A]], None)),
      gzip_json = (\<lambda>p. Inl OSError)\<rparr> ''r.tsv.gz'' = Inr 2
   \<and> count_pathways_tsv
     \<lparr>gzip_lines = (\<lambda>p. Inr ([''# likeligrid'',
                                ''loglik'' @ tab # ''Cycle'' @ tab # ''Damage'' @ tab # ''Cycle:Damage''
                                  @ [CHR 0x0A]], None)),
      gzip_json = (\<lambda>p. Inl OSError)\<rparr> ''r.tsv.gz'' = Inr 2"
proof -
  let ?h1 = "''loglik'' @ tab # ''Cycle'' @ tab # ''Damage'' @ [CHR 0x0A]"
  let ?h2 = "''loglik'' @ tab # ''Cycle'' @ tab # ''Damage'' @ tab # ''Cycle:Damage'' @ [CHR 0x0A]"
  let ?row = "''-1.5'' @ tab # ''1'' @ tab # ''2'' @ [CHR 0x0A]"
  let ?fs1 = "\<lparr>gzip_lines = (\<lambda>p. Inr ([''# likeligrid'', ?h1, ?row], None)),
               gzip_json = (\<lambda>p. Inl OSError)\<rparr>"
  let ?fs2 = "\<lparr>gzip_lines = (\<lambda>p. Inr ([''# likeligrid'', ?h2], None)),
               gzip_json = (\<lambda>p. Inl OSError)\<rparr>"
  have c: "\<forall>c\<in>set [''# likeligrid'']. startswith c ''#''"
    by (simp add: startswith_def)
  have n1: "\<not> startswith ?h1 ''#''" and n2: "\<not> startswith ?h2 ''#''"
    by (simp_all add: startswith_def)
  have t: "tab \<notin> set ''loglik''"
    by (simp add: tab_def)
  have ns: "\<forall>n\<in>set [''Cycle'', ''Damage'']. tab \<notin> set n \<and> CHR '':'' \<notin> set n"
    by (simp add: tab_def)
  have e: "\<forall>c\<in>set [CHR 0x0A]. isspace c"
    by (simp add: isspace_def)
  have l1: "gzip_lines ?fs1 ''r.tsv.gz'' = Inr ([''# likeligrid''] @ ?h1 # [?row], None)"
    by simp
  have l2: "gzip_lines ?fs2 ''r.tsv.gz'' = Inr ([''# likeligrid''] @ ?h2 # [], None)"
    by simp
  have b: "\<exists>c\<in>set (last [''Cycle'', ''Damage'']). \<not> isspace c"
    by (simp add: isspace_def)
  have a: "tab \<notin> set ''Cycle:Damage'' \<and> CHR '':'' \<in> set ''Cycle:Damage''"
    by (simp add: tab_def)
  from tsv_header_count [OF l1 c n1 t ns e, of "[]"] b
  have "count_pathways_tsv ?fs1 ''r.tsv.gz'' = Inr 2"
    by simp
  moreover from tsv_header_count [OF l2 c n2 t ns e, of "''Cycle:Damage''"] a
  have "count_pathways_tsv ?fs2 ''r.tsv.gz'' = Inr 2"
    by simp
  ultimately show ?thesis
    by simp
qed
text \<open>
  A header that holds the log-likelihood column and no pathway column: the count is not
  0, the call raises \<^verbatim>\<open>IndexError\<close>.
\<close>

theorem tsv_header_count_counterexample:
  "count_pathways_tsv
     \<lparr>gzip_lines = (\<lambda>p. Inr ([''loglik'' @ [CHR 0x0A]], None)),
      gzip_json = (\<lambda>p. Inl OSError)\<rparr> ''r.tsv.gz'' = Inl IndexError"
  by (simp add: count_pathways_tsv_def count_header_def startswith_def rstrip_def isspace_def
        tab_def)

section \<open>The exhaustive pairs\<close>

lemma length_combinations2: "length (combinations2 xs) = length xs * (length xs - 1) div 2"
proof (induction xs)
  case Nil
  show ?case by simp
next
  case (Cons x xs)
  have "length xs + length xs * (length xs - 1) div 2 = (length xs + 1) * length xs div 2"
    by (cases "length xs") (simp_all add: algebra_simps)
  with Cons show ?case by simp
qed

lemma fst_combinations2: "p \<in> set (combinations2 xs) \<Longrightarrow> fst p \<in> set xs"
  by (induction xs) auto

lemma set_combinations2:
  "sorted_wrt (<) xs \<Longrightarrow> set (combinations2 xs) = {(a, b). a \<in> set xs \<and> b \<in> set xs \<and> a < b}"
  for xs :: "nat list"
  by (induction xs) auto

lemma distinct_combinations2: "distinct xs \<Longrightarrow> distinct (combinations2 xs)"
proof (induction xs)
  case Nil
  show ?case by simp
next
  case (Cons x xs)
  then show ?case
    by (auto simp: distinct_map inj_on_def dest: fst_combinations2)
qed

lemma sorted_combinations2:
  "sorted_wrt (<) xs \<Longrightarrow> sorted_wrt lex_lt (combinations2 xs)"
proof (induction xs)
  case Nil
  show ?case by simp
next
  case (Cons x xs)
  from Cons have "sorted_wrt lex_lt (map (Pair x) xs)"
    by (simp add: sorted_wrt_map lex_lt_def)
  moreover from Cons have "sorted_wrt lex_lt (combinations2 xs)"
    by simp
  moreover from Cons have "\<forall>p\<in>set (map (Pair x) xs). \<forall>q\<in>set (combinations2 xs). lex_lt p q"
    by (fastforce simp: lex_lt_def dest: fst_combinations2)
  ultimately show ?case
    by (simp add: sorted_wrt_append)
qed

text \<open>The pairs enumerated for a pathway count \<open>k\<close>.\<close>

lemma combinations2_upt:
  "length (combinations2 [0..<k]) = k * (k - 1) div 2
   \<and> distinct (combinations2 [0..<k])
   \<and> set (combinations2 [0..<k]) = {(i, j). i < j \<and> j < k}
   \<and> sorted_wrt lex_lt (combinations2 [0..<k])
   \<and> (k < 2 \<longrightarrow> combinations2 [0..<k] = [])"
proof (intro conjI impI)
  show "length (combinations2 [0..<k]) = k * (k - 1) div 2"
    by (simp add: length_combinations2)
  show "distinct (combinations2 [0..<k])"
    by (simp add: distinct_combinations2)
  have "sorted_wrt (<) [0..<k]"
    by simp
  from set_combinations2 [OF this]
  show "set (combinations2 [0..<k]) = {(i, j). i < j \<and> j < k}"
    by auto
  show "sorted_wrt lex_lt (combinations2 [0..<k])"
    by (simp add: sorted_combinations2)
  assume "k < 2"
  then have "k = 0 \<or> k = 1" by arith
  then show "combinations2 [0..<k] = []" by auto
qed

text \<open>
  Claim C2. In epistasis mode, for a file whose pathway count is \<open>k\<close>, the generator
  yields one job for each pair of \<^verbatim>\<open>itertools.combinations(range(k), 2)\<close>, in that order,
  the pair in its \<^verbatim>\<open>-e\<close> flag. These are exactly \<open>k (k - 1) / 2\<close> pairs, no pair twice,
  exactly the pairs \<open>(i, j)\<close> with \<open>0 \<le> i < j < k\<close>, in lexicographic order. For \<open>k < 2\<close>
  no job is yielded for the file, and nothing is raised.
\<close>

theorem epistasis_pairs:
  assumes "npath_of fs (const_of concurrency rest) f = Inr k"
  shows "file_jobs fs (const_of concurrency rest) args True tp53 f
           = Inr (map (\<lambda>x. const_of concurrency rest @ [fmt_e x] @ args @ [f])
                    (combinations2 [0..<k]))
       \<and> iter_args fs make_args [f] [s] concurrency rest True tp53
           = (map (\<lambda>x. const_of concurrency rest @ [fmt_e x] @ make_args [(''s'', s)] @ [f])
                (combinations2 [0..<k]), None)
       \<and> length (combinations2 [0..<k]) = k * (k - 1) div 2
       \<and> distinct (combinations2 [0..<k])
       \<and> set (combinations2 [0..<k]) = {(i, j). i < j \<and> j < k}
       \<and> sorted_wrt lex_lt (combinations2 [0..<k])
       \<and> (k < 2 \<longrightarrow> file_jobs fs (const_of concurrency rest) args True tp53 f = Inr []
                  \<and> iter_args fs make_args [f] [s] concurrency rest True tp53 = ([], None))"
proof -
  have jobs: "file_jobs fs (const_of concurrency rest) a True tp53 f
           = Inr (map (\<lambda>x. const_of concurrency rest @ [fmt_e x] @ a @ [f])
                    (combinations2 [0..<k]))" for a
    using assms by (simp add: file_jobs_def)
  have gen: "iter_args fs make_args [f] [s] concurrency rest True tp53
           = (map (\<lambda>x. const_of concurrency rest @ [fmt_e x] @ make_args [(''s'', s)] @ [f])
                (combinations2 [0..<k]), None)"
    by (simp add: iter_args_def sequential_def jobs)
  have none: "k < 2 \<longrightarrow> combinations2 [0..<k] = []"
    using combinations2_upt [of k] by blast
  from jobs [of args] gen none combinations2_upt [of k] show ?thesis
    by simp
qed

theorem epistasis_pairs_witness:
  "file_jobs
     \<lparr>gzip_lines = (\<lambda>p. Inl OSError),
      gzip_json = (\<lambda>p. Inr (PDict [(''pathway'', PList [PStr ''Cycle'', PStr ''Growth'', PStr ''Damage''])]))\<rparr>
     (const_of 3 []) [''-s5''] True False ''g.json.gz''
   = Inr [[''likeligrid'', ''-j3'', ''-e 0 1'', ''-s5'', ''g.json.gz''],
          [''likeligrid'', ''-j3'', ''-e 0 2'', ''-s5'', ''g.json.gz''],
          [''likeligrid'', ''-j3'', ''-e 1 2'', ''-s5'', ''g.json.gz'']]
   \<and> combinations2 [0..<3] = [(0, 1), (0, 2), (1, 2)]
   \<and> (1::nat) < 2
   \<and> file_jobs
     \<lparr>gzip_lines = (\<lambda>p. Inl OSError),
      gzip_json = (\<lambda>p. Inr (PDict [(''pathway'', PList [PStr ''Cycle''])]))\<rparr>
     (const_of 3 []) [''-s5''] True False ''g.json.gz'' = Inr []"
proof -
  let ?fs3 = "\<lparr>gzip_lines = (\<lambda>p. Inl OSError),
      gzip_json = (\<lambda>p. Inr (PDict [(''pathway'', PList [PStr ''Cycle'', PStr ''Growth'', PStr ''Damage''])]))\<rparr>"
  let ?fs1 = "\<lparr>gzip_lines = (\<lambda>p. Inl OSError),
      gzip_json = (\<lambda>p. Inr (PDict [(''pathway'', PList [PStr ''Cycle''])]))\<rparr>"
  have h3: "npath_of ?fs3 (const_of 3 []) ''g.json.gz'' = Inr 3"
    by (simp add: npath_of_def const_of_def program_def count_pathways_json_def)
  have h1: "npath_of ?fs1 (const_of 3 []) ''g.json.gz'' = Inr 1"
    by (simp add: npath_of_def const_of_def program_def count_pathways_json_def)
  have c3: "combinations2 [0..<3] = [(0, 1), (0, 2), (1, 2)]"
    by (simp add: upt_rec)
  from epistasis_pairs [OF h3, of "[''-s5'']" False] epistasis_pairs [OF h1, of "[''-s5'']" False] c3
  show ?thesis
    by (simp add: const_of_def program_def fmt_e_def str_nat.simps str_int_def digit_char_def)
qed

section \<open>The JSON document\<close>

lemma py_eq_str_iff: "py_eq_str x s \<longleftrightarrow> x = PStr s"
  by (cases x) auto

lemma list_index_absent: "PStr s \<notin> set p \<Longrightarrow> list_index p s = Inl ValueError"
  by (induction p) (auto simp: py_eq_str_iff)

lemma list_index_present:
  "PStr s \<in> set p \<Longrightarrow> \<exists>i. list_index p s = Inr i \<and> first_at p s i"
proof (induction p)
  case Nil
  then show ?case by simp
next
  case (Cons x xs)
  show ?case
  proof (cases "x = PStr s")
    case True
    then show ?thesis by (simp add: first_at_def)
  next
    case False
    with Cons obtain i where i: "list_index xs s = Inr i" "first_at xs s i"
      by auto
    from i(2) False have "first_at (x # xs) s (Suc i)"
      by (auto simp: first_at_def nth_Cons split: nat.splits)
    with i(1) False show ?thesis
      by (auto simp: py_eq_str_iff)
  qed
qed



text \<open>
  Claim C3. For a document whose \<^verbatim>\<open>pathway\<close> field is a list, \<^verbatim>\<open>tp53_pleiotropic_pair\<close>
  returns the index of \<^verbatim>\<open>"Cycle"\<close> and the index of \<^verbatim>\<open>"Damage"\<close>, in this order, when
  the list holds both names. When it lacks one of them the call fails with
  \<^verbatim>\<open>ValueError\<close>, the exception that \<^verbatim>\<open>list.index\<close> raises.
\<close>

theorem tp53_named_pair:
  assumes "gzip_json fs f = Inr d" and "getitem d ''pathway'' = Inr (PList p)"
  shows "(PStr ''Cycle'' \<in> set p \<and> PStr ''Damage'' \<in> set p \<longrightarrow>
            (\<exists>i j. tp53_pleiotropic_pair fs f = Inr (i, j)
                   \<and> first_at p ''Cycle'' i \<and> first_at p ''Damage'' j))
       \<and> (PStr ''Cycle'' \<notin> set p \<or> PStr ''Damage'' \<notin> set p \<longrightarrow>
            tp53_pleiotropic_pair fs f = Inl ValueError)"
proof (intro conjI impI)
  assume "PStr ''Cycle'' \<in> set p \<and> PStr ''Damage'' \<in> set p"
  then obtain i j where "list_index p ''Cycle'' = Inr i" "first_at p ''Cycle'' i"
    "list_index p ''Damage'' = Inr j" "first_at p ''Damage'' j"
    using list_index_present by blast
  with assms show "\<exists>i j. tp53_pleiotropic_pair fs f = Inr (i, j)
                   \<and> first_at p ''Cycle'' i \<and> first_at p ''Damage'' j"
    by (simp add: tp53_pleiotropic_pair_def)
next
  assume a: "PStr ''Cycle'' \<notin> set p \<or> PStr ''Damage'' \<notin> set p"
  show "tp53_pleiotropic_pair fs f = Inl ValueError"
  proof (cases "PStr ''Cycle'' \<in> set p")
    case True
    then obtain i where "list_index p ''Cycle'' = Inr i"
      using list_index_present by blast
    moreover from a True have "list_index p ''Damage'' = Inl ValueError"
      by (simp add: list_index_absent)
    ultimately show ?thesis
      using assms by (simp add: tp53_pleiotropic_pair_def)
  next
    case False
    then have "list_index p ''Cycle'' = Inl ValueError"
      by (rule list_index_absent)
    with assms show ?thesis
      by (simp add: tp53_pleiotropic_pair_def)
  qed
qed

theorem tp53_named_pair_witness:
  "tp53_pleiotropic_pair
     \<lparr>gzip_lines = (\<lambda>p. Inl OSError),
      gzip_json = (\<lambda>p. Inr (PDict [(''pathway'', PList [PStr ''Cycle'', PStr ''Growth'', PStr ''Damage''])]))\<rparr>
     ''g.json.gz'' = Inr (0, 2)
   \<and> tp53_pleiotropic_pair
     \<lparr>gzip_lines = (\<lambda>p. Inl OSError),
      gzip_json = (\<lambda>p. Inr (PDict [(''pathway'', PList [PStr ''Cycle'', PStr ''Growth''])]))\<rparr>
     ''g.json.gz'' = Inl ValueError"
  using tp53_named_pair
          [of "\<lparr>gzip_lines = (\<lambda>p. Inl OSError),
                gzip_json = (\<lambda>p. Inr (PDict [(''pathway'', PList [PStr ''Cycle'', PStr ''Growth'', PStr ''Damage''])]))\<rparr>"
              "''g.json.gz''" "PDict [(''pathway'', PList [PStr ''Cycle'', PStr ''Growth'', PStr ''Damage''])]"
              "[PStr ''Cycle'', PStr ''Growth'', PStr ''Damage'']"]
        tp53_named_pair
          [of "\<lparr>gzip_lines = (\<lambda>p. Inl OSError),
                gzip_json = (\<lambda>p. Inr (PDict [(''pathway'', PList [PStr ''Cycle'', PStr ''Growth''])]))\<rparr>"
              "''g.json.gz''" "PDict [(''pathway'', PList [PStr ''Cycle'', PStr ''Growth''])]"
              "[PStr ''Cycle'', PStr ''Growth'']"]
  by (simp add: tp53_pleiotropic_pair_def)

text \<open>
  A pathway list without \<^verbatim>\<open>"Damage"\<close>: the call raises \<^verbatim>\<open>ValueError\<close>, which is not a
  \<^verbatim>\<open>LookupError\<close>.
\<close>

theorem tp53_named_pair_counterexample:
  "tp53_pleiotropic_pair
     \<lparr>gzip_lines = (\<lambda>p. Inl OSError),
      gzip_json = (\<lambda>p. Inr (PDict [(''pathway'', PList [PStr ''Cycle'', PStr ''Growth''])]))\<rparr>
     ''g.json.gz'' = Inl ValueError
   \<and> \<not> is_lookup_error ValueError"
  by (simp add: tp53_pleiotropic_pair_def is_lookup_error_def)

text \<open>
  Claim C8. \<^verbatim>\<open>count_pathways_json\<close> returns \<open>k\<close> when the \<^verbatim>\<open>pathway\<close> field holds a list
  of length \<open>k\<close>. It fails with \<^verbatim>\<open>KeyError\<close> when the document is an object without that
  field, and with \<^verbatim>\<open>TypeError\<close> when the document is not an object or the field holds
  null, a boolean or a number. When the field holds a string or an object, \<^verbatim>\<open>len\<close> is
  defined: the call returns the length of the string, or the number of keys of the object.
\<close>

theorem json_count_cases:
  assumes "gzip_json fs f = Inr d"
  shows "(getitem d ''pathway'' = Inr (PList xs) \<longrightarrow> count_pathways_json fs f = Inr (length xs))
       \<and> (d = PDict kvs \<and> map_of kvs ''pathway'' = None \<longrightarrow> count_pathways_json fs f = Inl KeyError)
       \<and> ((\<forall>kvs'. d \<noteq> PDict kvs') \<longrightarrow> count_pathways_json fs f = Inl TypeError)
       \<and> (getitem d ''pathway'' = Inr p \<and> (p = PNone \<or> p = PBool b \<or> p = PInt n \<or> p = PFloat x)
            \<longrightarrow> count_pathways_json fs f = Inl TypeError)
       \<and> (getitem d ''pathway'' = Inr (PStr s) \<longrightarrow> count_pathways_json fs f = Inr (length s))
       \<and> (getitem d ''pathway'' = Inr (PDict kvs) \<longrightarrow>
            count_pathways_json fs f = Inr (length (remdups (map fst kvs))))"
  using assms by (cases d) (auto simp: count_pathways_json_def)

theorem json_count_cases_witness:
  "count_pathways_json
     \<lparr>gzip_lines = (\<lambda>p. Inl OSError),
      gzip_json = (\<lambda>p. Inr (PDict [(''pathway'', PList [PStr ''Cycle'', PStr ''Growth'', PStr ''Damage''])]))\<rparr>
     ''g.json.gz'' = Inr 3
   \<and> count_pathways_json
     \<lparr>gzip_lines = (\<lambda>p. Inl OSError),
      gzip_json = (\<lambda>p. Inr (PDict [(''genotype'', PList [])]))\<rparr>
     ''g.json.gz'' = Inl KeyError
   \<and> count_pathways_json
     \<lparr>gzip_lines = (\<lambda>p. Inl OSError),
      gzip_json = (\<lambda>p. Inr (PDict [(''pathway'', PInt 3)]))\<rparr>
     ''g.json.gz'' = Inl TypeError"
  using json_count_cases
          [of "\<lparr>gzip_lines = (\<lambda>p. Inl OSError),
                gzip_json = (\<lambda>p. Inr (PDict [(''pathway'', PList [PStr ''Cycle'', PStr ''Growth'', PStr ''Damage''])]))\<rparr>"
              "''g.json.gz''" "PDict [(''pathway'', PList [PStr ''Cycle'', PStr ''Growth'', PStr ''Damage''])]"
              "[PStr ''Cycle'', PStr ''Growth'', PStr ''Damage'']"]
        json_count_cases
          [of "\<lparr>gzip_lines = (\<lambda>p. Inl OSError),
                gzip_json = (\<lambda>p. Inr (PDict [(''genotype'', PList [])]))\<rparr>"
              "''g.json.gz''" "PDict [(''genotype'', PList [])]" "[]" "[(''genotype'', PList [])]"]
        json_count_cases
          [of "\<lparr>gzip_lines = (\<lambda>p. Inl OSError),
                gzip_json = (\<lambda>p. Inr (PDict [(''pathway'', PInt 3)]))\<rparr>"
              "''g.json.gz''" "PDict [(''pathway'', PInt 3)]" "[]" "[]" "PInt 3" True 3]
  by simp

text \<open>
  A \<^verbatim>\<open>pathway\<close> field that holds an object with one key: the call returns 1.
\<close>

theorem json_count_counterexample:
  "count_pathways_json
     \<lparr>gzip_lines = (\<lambda>p. Inl OSError),
      gzip_json = (\<lambda>p. Inr (PDict [(''pathway'', PDict [(''Cycle'', PInt 1)])]))\<rparr>
     ''g.json.gz'' = Inr 1"
  by (simp add: count_pathways_json_def)

section \<open>The generator\<close>

lemma files_loop_ok:
  "\<forall>f\<in>set fs. body f = Inr (js f) \<Longrightarrow> files_loop body fs = (concat (map js fs), None)"
  by (induction fs) auto

lemma sweep_loop_ok:
  "\<forall>v\<in>set vs. body v = (js v, None) \<Longrightarrow> sweep_loop body vs = (concat (map js vs), None)"
  by (induction vs) auto

lemma files_loop_length:
  "\<forall>f\<in>set fs. \<exists>js. body f = Inr js \<and> length js = n f \<Longrightarrow>
   \<exists>jobs. files_loop body fs = (jobs, None) \<and> length jobs = sum_list (map n fs)"
  by (induction fs) auto

lemma sweep_loop_length:
  "\<forall>v\<in>set vs. \<exists>js. body v = (js, None) \<and> length js = m \<Longrightarrow>
   \<exists>jobs. sweep_loop body vs = (jobs, None) \<and> length jobs = length vs * m"
  by (induction vs) auto

lemma sequential_single: "sequential [(key, vals)] = map (\<lambda>v. [(key, v)]) vals"
  by (simp add: sequential_def)

lemma file_jobs_count:
  "pairs_per_file fs const epistasis tp53 f = Inr n \<Longrightarrow>
   \<exists>js. file_jobs fs const args epistasis tp53 f = Inr js \<and> length js = n"
  by (auto simp: pairs_per_file_def file_jobs_def split: if_splits sum.splits)

lemma minus_g_in_const: "''-g'' \<in> set (const_of concurrency rest) \<longleftrightarrow> ''-g'' \<in> set rest"
  by (simp add: const_of_def program_def)

text \<open>
  Claim C1. Whatever the sweep range and the mode, for every list of input files each of
  which can be read as the mode requires (its pathway count is found in epistasis mode,
  its named pair in tp53 mode), the generator ends without raising, and the number of
  jobs it has yielded is the length of the sweep range times the sum over the files of
  the number of pairs selected: the pairs of the file in epistasis mode, 1 in tp53 mode,
  1 with no mode. The sequence is a list, so it is finite.
\<close>

theorem iter_args_length:
  assumes "\<forall>f\<in>set infiles.
             pairs_per_file fs (const_of concurrency rest) epistasis tp53 f = Inr (n f)"
  shows "\<exists>jobs. iter_args fs make_args infiles range_s concurrency rest epistasis tp53
                  = (jobs, None)
               \<and> length jobs = length range_s * sum_list (map n infiles)"
proof -
  let ?const = "const_of concurrency rest"
  let ?body = "\<lambda>v. files_loop (\<lambda>f. file_jobs fs ?const (make_args v) epistasis tp53 f) infiles"
  have "\<exists>js. ?body v = (js, None) \<and> length js = sum_list (map n infiles)" for v
    using assms by (intro files_loop_length) (simp add: file_jobs_count)
  then have "\<exists>jobs. sweep_loop ?body (sequential [(''s'', range_s)]) = (jobs, None)
               \<and> length jobs = length (sequential [(''s'', range_s)]) * sum_list (map n infiles)"
    by (intro sweep_loop_length) simp
  then show ?thesis
    by (simp add: iter_args_def sequential_single)
qed

theorem iter_args_length_witness:
  "pairs_per_file
     \<lparr>gzip_lines = (\<lambda>p. Inl OSError),
      gzip_json = (\<lambda>p. Inr (PDict [(''pathway'', PList [PStr ''Cycle'', PStr ''Growth'', PStr ''Damage''])]))\<rparr>
     (const_of 3 []) True False ''g.json.gz'' = Inr 3
   \<and> iter_args
       \<lparr>gzip_lines = (\<lambda>p. Inl OSError),
        gzip_json = (\<lambda>p. Inr (PDict [(''pathway'', PList [PStr ''Cycle'', PStr ''Growth'', PStr ''Damage''])]))\<rparr>
       (\<lambda>v. map (\<lambda>(key, val). CHR ''-'' # key @ str_int val) v)
       [''g.json.gz''] (py_range 5 6) 3 [] True False
     = ([[''likeligrid'', ''-j3'', ''-e 0 1'', ''-s5'', ''g.json.gz''],
         [''likeligrid'', ''-j3'', ''-e 0 2'', ''-s5'', ''g.json.gz''],
         [''likeligrid'', ''-j3'', ''-e 1 2'', ''-s5'', ''g.json.gz'']], None)"
proof -
  let ?fs = "\<lparr>gzip_lines = (\<lambda>p. Inl OSError),
      gzip_json = (\<lambda>p. Inr (PDict [(''pathway'', PList [PStr ''Cycle'', PStr ''Growth'', PStr ''Damage''])]))\<rparr>"
  have h: "\<forall>f\<in>set [''g.json.gz'']. pairs_per_file ?fs (const_of 3 []) True False f = Inr ((\<lambda>f. 3) f)"
    by (simp add: pairs_per_file_def npath_of_def const_of_def program_def count_pathways_json_def upt_rec)
  from iter_args_length [OF h, of "(\<lambda>v. map (\<lambda>(key, val). CHR ''-'' # key @ str_int val) v)" "py_range 5 6"] h
  show ?thesis
    by (simp add: iter_args_def sequential_def py_range_def file_jobs_def npath_of_def const_of_def
          program_def count_pathways_json_def upt_rec fmt_e_def str_nat.simps str_int_def
          digit_char_def)
qed

text \<open>
  Two files in tp53 mode, the second without \<^verbatim>\<open>"Damage"\<close>, and the sweep range from 2 to
  4: the generator yields the job of the first file for the first sweep value and then
  raises \<^verbatim>\<open>ValueError\<close>. It has yielded one job, where two sweep values times one pair for
  each of two files make four.
\<close>

theorem iter_args_length_counterexample:
  "iter_args
     \<lparr>gzip_lines = (\<lambda>p. Inl OSError),
      gzip_json = (\<lambda>p. if p = ''a.json.gz''
                          then Inr (PDict [(''pathway'', PList [PStr ''Cycle'', PStr ''Damage''])])
                          else Inr (PDict [(''pathway'', PList [PStr ''Cycle'', PStr ''Growth''])]))\<rparr>
     (\<lambda>v. map (\<lambda>(key, val). CHR ''-'' # key @ str_int val) v)
     [''a.json.gz'', ''b.json.gz''] (py_range 2 4) 3 [] False True
   = ([[''likeligrid'', ''-j3'', ''-e 0 1'', ''-s2'', ''a.json.gz'']], Some ValueError)
   \<and> length (py_range 2 4) * (1 + 1) = (4::nat)"
  by (simp add: iter_args_def sequential_def py_range_def file_jobs_def const_of_def program_def
        tp53_pleiotropic_pair_def fmt_e_def str_nat.simps str_int_def digit_char_def)

text \<open>
  Claim C6. In epistasis mode the pathway count of a file comes from
  \<^verbatim>\<open>count_pathways_tsv\<close> exactly when the token \<^verbatim>\<open>-g\<close> is among the passthrough arguments
  \<^verbatim>\<open>rest\<close>, and from \<^verbatim>\<open>count_pathways_json\<close> otherwise. The test \<^verbatim>\<open>'-g' in const\<close> also
  looks at the program name and at the \<^verbatim>\<open>-j\<close> token; neither is ever \<^verbatim>\<open>-g\<close>.
\<close>

theorem counter_choice:
  "npath_of fs (const_of concurrency rest) f
     = (if ''-g'' \<in> set rest then count_pathways_tsv fs f else count_pathways_json fs f)
   \<and> file_jobs fs (const_of concurrency rest) args True tp53 f
     = (case (if ''-g'' \<in> set rest then count_pathways_tsv fs f else count_pathways_json fs f) of
          Inl e \<Rightarrow> Inl e
        | Inr npath \<Rightarrow>
            Inr (map (\<lambda>x. const_of concurrency rest @ [fmt_e x] @ args @ [f])
                   (combinations2 [0..<npath])))"
  by (simp add: npath_of_def file_jobs_def minus_g_in_const)

theorem counter_choice_witness:
  "npath_of
     \<lparr>gzip_lines = (\<lambda>p. Inr ([''loglik'' @ tab # ''Cycle'' @ tab # ''Damage'' @ [CHR 0x0A]], None)),
      gzip_json = (\<lambda>p. Inr (PDict [(''pathway'', PList [PStr ''Cycle''])]))\<rparr>
     (const_of 3 [''-g'']) ''r.gz'' = Inr 2
   \<and> npath_of
     \<lparr>gzip_lines = (\<lambda>p. Inr ([''loglik'' @ tab # ''Cycle'' @ tab # ''Damage'' @ [CHR 0x0A]], None)),
      gzip_json = (\<lambda>p. Inr (PDict [(''pathway'', PList [PStr ''Cycle''])]))\<rparr>
     (const_of 3 [''-v'']) ''r.gz'' = Inr 1"
  using counter_choice
          [of "\<lparr>gzip_lines = (\<lambda>p. Inr ([''loglik'' @ tab # ''Cycle'' @ tab # ''Damage'' @ [CHR 0x0A]], None)),
                gzip_json = (\<lambda>p. Inr (PDict [(''pathway'', PList [PStr ''Cycle''])]))\<rparr>"
              3 "[''-g'']" "''r.gz''"]
        counter_choice
          [of "\<lparr>gzip_lines = (\<lambda>p. Inr ([''loglik'' @ tab # ''Cycle'' @ tab # ''Damage'' @ [CHR 0x0A]], None)),
                gzip_json = (\<lambda>p. Inr (PDict [(''pathway'', PList [PStr ''Cycle''])]))\<rparr>"
              3 "[''-v'']" "''r.gz''"]
  by (simp add: count_pathways_tsv_def count_pathways_json_def count_header_def startswith_def
        rstrip_def isspace_def tab_def)

text \<open>
  Claim C7. With neither mode set, the generator yields one job for each sweep value and
  each file, the sweep values in the order of the range (ascending, for a range built by
  \<^verbatim>\<open>range(begin, end)\<close>) and, for each of them, the files in the given order. Each job is the
  program name, the \<^verbatim>\<open>-j\<close> token, the passthrough arguments, the flags of the sweep value
  and the file, without a pair flag. There are \<open>m \<times> n\<close> jobs for \<open>m\<close> values and \<open>n\<close>
  files: four for two files and the range from 2 to 4.
\<close>

theorem no_mode_jobs:
  "iter_args fs make_args infiles range_s concurrency rest False False
     = (concat (map (\<lambda>s. map (\<lambda>f. [program, ''-j'' @ str_int concurrency] @ rest
                                     @ make_args [(''s'', s)] @ [f]) infiles) range_s), None)
   \<and> length (fst (iter_args fs make_args infiles range_s concurrency rest False False))
     = length range_s * length infiles
   \<and> sorted (py_range b e) \<and> distinct (py_range b e)"
proof -
  let ?job = "\<lambda>s f. [program, ''-j'' @ str_int concurrency] @ rest @ make_args [(''s'', s)] @ [f]"
  let ?const = "const_of concurrency rest"
  have inner: "files_loop (\<lambda>f. file_jobs fs ?const (make_args v) False False f) infiles
               = (concat (map (\<lambda>f. [?const @ make_args v @ [f]]) infiles), None)" for v
    by (intro files_loop_ok) (simp add: file_jobs_def)
  have "sweep_loop (\<lambda>v. files_loop (\<lambda>f. file_jobs fs ?const (make_args v) False False f) infiles)
          (map (\<lambda>s. [(''s'', s)]) range_s)
        = (concat (map (\<lambda>v. concat (map (\<lambda>f. [?const @ make_args v @ [f]]) infiles))
                     (map (\<lambda>s. [(''s'', s)]) range_s)), None)"
    by (intro sweep_loop_ok) (simp add: inner)
  then have eq: "iter_args fs make_args infiles range_s concurrency rest False False
     = (concat (map (\<lambda>s. map (?job s) infiles) range_s), None)"
    by (simp add: iter_args_def sequential_single const_of_def comp_def)
  have "length (concat (map (\<lambda>s. map (?job s) infiles) range_s)) = length range_s * length infiles"
    by (induction range_s) simp_all
  with eq show ?thesis by (simp add: py_range_def)
qed

theorem no_mode_jobs_witness:
  "iter_args
     \<lparr>gzip_lines = (\<lambda>p. Inl OSError), gzip_json = (\<lambda>p. Inl OSError)\<rparr>
     (\<lambda>v. map (\<lambda>(key, val). CHR ''-'' # key @ str_int val) v)
     [''a.json.gz'', ''b.json.gz''] (py_range 2 4) 3 [''-v''] False False
   = ([[''likeligrid'', ''-j3'', ''-v'', ''-s2'', ''a.json.gz''],
       [''likeligrid'', ''-j3'', ''-v'', ''-s2'', ''b.json.gz''],
       [''likeligrid'', ''-j3'', ''-v'', ''-s3'', ''a.json.gz''],
       [''likeligrid'', ''-j3'', ''-v'', ''-s3'', ''b.json.gz'']], None)"
  using no_mode_jobs
          [of "\<lparr>gzip_lines = (\<lambda>p. Inl OSError), gzip_json = (\<lambda>p. Inl OSError)\<rparr>"
              "(\<lambda>v. map (\<lambda>(key, val). CHR ''-'' # key @ str_int val) v)"
              "[''a.json.gz'', ''b.json.gz'']" "py_range 2 4" 3 "[''-v'']"]
  by (simp add: py_range_def program_def str_int_def str_nat.simps digit_char_def)



end
